theory Spec2Isabelle
  imports Main
begin

section \<open>The exact-cover notebook: brute-force search\<close>

text \<open>
  The model follows the first two code cells of
  \<^verbatim>\<open>community/optimization/exact_cover.ipynb\<close>: cell 1 reads the list of subsets from a
  JSON file into the global \<^verbatim>\<open>list_of_subsets\<close>, cell 2 defines and runs \<^verbatim>\<open>brute_force\<close>
  and prints the outcome. Python exceptions are values of type \<open>error\<close>; the global, the
  console and the sequence of arguments handed to the satisfiability check are fields of
  an explicit state.
\<close>

datatype error = UnboundLocalError | External string

subsection \<open>Library functions used by the notebook\<close>

text \<open>
  \<^verbatim>\<open>np.binary_repr(num, width)\<close> belongs to NumPy, not to the notebook. For the
  non-negative \<^verbatim>\<open>num\<close> that \<^verbatim>\<open>range(max)\<close> produces, NumPy computes
  \<^verbatim>\<open>
  if num == 0:
      return '0' * (width or 1)
  elif num > 0:
      binary = bin(num)[2:]
      binwidth = len(binary)
      outwidth = (binwidth if width is None else max(binwidth, width))
      return binary.zfill(outwidth)
  \<close>
  \<open>bin_digits\<close> is \<^verbatim>\<open>bin(num)[2:]\<close> for a positive number (most significant digit first)
  and \<open>zfill\<close> is \<^verbatim>\<open>str.zfill\<close> on a string without a sign.
\<close>

fun bin_digits :: "nat \<Rightarrow> string" where
  "bin_digits n =
     (if n = 0 then []
      else bin_digits (n div 2) @ [if odd n then CHR ''1'' else CHR ''0''])"

declare bin_digits.simps [simp del]

definition zfill :: "string \<Rightarrow> nat \<Rightarrow> string" where
  "zfill s w = replicate (w - length s) CHR ''0'' @ s"

definition binary_repr :: "nat \<Rightarrow> nat \<Rightarrow> string" where
  "binary_repr num width =
     (if num = 0 then replicate (if width = 0 then 1 else width) CHR ''0''
      else
        let binary = bin_digits num;
            binwidth = length binary;
            outwidth = max binwidth width
        in zfill binary outwidth)"

text \<open>
  Python's \<^verbatim>\<open>int(digit)\<close> on a one-character string holding a decimal digit; the strings
  produced by \<open>binary_repr\<close> hold no other character.
\<close>

definition int_of_digit :: "char \<Rightarrow> int" where
  "int_of_digit c = int (of_char c) - 48"

text \<open>
  Modelled from the spec: the ground set \<open>X\<close> of \<^verbatim>\<open>exact_cover.check_solution_satisfiability\<close>,
  a function of the Qiskit Aqua library that is not part of the source. The spec takes \<open>X\<close>
  to be the union of all subsets.
\<close>

definition ground_set :: "int list list \<Rightarrow> int list" where
  "ground_set S = remdups (concat S)"

text \<open>
  Modelled from the spec: the subsets that a vector includes, for the same missing library
  function. Entry \<open>j\<close> of the vector is 1 when subset \<open>j\<close> is in the cover and 0 when it is
  not.
\<close>

definition included :: "int list \<Rightarrow> int list list \<Rightarrow> int list list" where
  "included v S = map snd (filter (\<lambda>(b, s). b = 1) (zip v S))"

text \<open>
  Modelled from the spec: \<^verbatim>\<open>exact_cover.check_solution_satisfiability\<close> is a function of the
  Qiskit Aqua library and is not part of the source. The spec declares a vector a solution
  if, for every element of \<open>X\<close>, the number of included subsets containing that element
  equals exactly one.
\<close>

definition check_solution_satisfiability :: "int list \<Rightarrow> int list list \<Rightarrow> bool" where
  "check_solution_satisfiability v S =
     list_all (\<lambda>x. length (filter (\<lambda>s. x \<in> set s) (included v S)) = 1) (ground_set S)"

text \<open>
  A call of the check from \<^verbatim>\<open>brute_force\<close> passes references to two mutable lists and may
  raise. A \<open>checker\<close> therefore returns the boolean or the exception, together with the
  contents of both argument lists after the call.
\<close>

type_synonym checker =
  "int list \<Rightarrow> int list list \<Rightarrow> (error + bool) \<times> int list \<times> int list list"

text \<open>
  Modelled from the spec: the call of \<^verbatim>\<open>exact_cover.check_solution_satisfiability\<close>, which is
  missing from the source. The spec gives it a boolean answer and no other effect, so the
  call returns that boolean and leaves both lists as they are.
\<close>

definition exact_cover_check :: checker where
  "exact_cover_check v S = (Inr (check_solution_satisfiability v S), v, S)"

subsection \<open>State of the notebook\<close>

datatype line = Subsets "int list list" | Solution_is "int list" | No_solution_is_found

record nb_state =
  list_of_subsets :: "int list list"
  stdout :: "line list"
  check_log :: "int list list"

record bf_locals =
  has_sol :: bool
  cur :: "int list option"

subsection \<open>\<^verbatim>\<open>brute_force\<close>\<close>

definition bitfield :: "nat \<Rightarrow> nat \<Rightarrow> int list" where
  "bitfield n L = (let result = binary_repr n L in map int_of_digit result)"

text \<open>
  The body of \<^verbatim>\<open>for i in range(max)\<close>, run over the remaining values of \<open>i\<close>. The first
  component of the result is the exception that left the loop, if any. \<open>check_log\<close> is a
  ghost field: it records the vector given to each evaluation of the check.
\<close>

fun for_loop ::
  "checker \<Rightarrow> nat \<Rightarrow> nat list \<Rightarrow> bf_locals \<times> nb_state \<Rightarrow> error option \<times> bf_locals \<times> nb_state"
where
  "for_loop chk L [] (lv, st) = (None, lv, st)"
| "for_loop chk L (i # is) (lv, st) =
     (let c = bitfield i L in
      case chk c (list_of_subsets st) of
        (cur_v, c', S') \<Rightarrow>
          let lv1 = lv\<lparr>cur := Some c'\<rparr>;
              st1 = st\<lparr>list_of_subsets := S', check_log := check_log st @ [c]\<rparr>
          in (case cur_v of
                Inl e \<Rightarrow> (Some e, lv1, st1)
              | Inr b \<Rightarrow>
                  if b then (None, lv1\<lparr>has_sol := True\<rparr>, st1)
                  else for_loop chk L is (lv1, st1)))"

definition brute_force :: "checker \<Rightarrow> nb_state \<Rightarrow> (error + bool \<times> int list) \<times> nb_state" where
  "brute_force chk st =
     (let lv0 = \<lparr>has_sol = False, cur = None\<rparr>;
          L = length (list_of_subsets st);
          max = 2 ^ L
      in case for_loop chk L [0..<max] (lv0, st) of
           (Some e, lv, st') \<Rightarrow> (Inl e, st')
         | (None, lv, st') \<Rightarrow>
             (case cur lv of
                None \<Rightarrow> (Inl UnboundLocalError, st')
              | Some c \<Rightarrow> (Inr (has_sol lv, c), st')))"

subsection \<open>The two cells\<close>

text \<open>
  Cell 1: \<open>load\<close> is what \<^verbatim>\<open>open(input_file)\<close> followed by \<^verbatim>\<open>json.load(f)\<close> yields, the
  parsed list or the exception raised.
\<close>

definition cell_1 :: "error + int list list \<Rightarrow> nb_state \<Rightarrow> error option \<times> nb_state" where
  "cell_1 load st =
     (case load of
        Inl e \<Rightarrow> (Some e, st)
      | Inr S \<Rightarrow> (None, st\<lparr>list_of_subsets := S, stdout := stdout st @ [Subsets S]\<rparr>))"

definition cell_2 :: "checker \<Rightarrow> nb_state \<Rightarrow> error option \<times> nb_state" where
  "cell_2 chk st =
     (case brute_force chk st of
        (Inl e, st') \<Rightarrow> (Some e, st')
      | (Inr (found, vec), st') \<Rightarrow>
          if found then (None, st'\<lparr>stdout := stdout st' @ [Solution_is vec]\<rparr>)
          else (None, st'\<lparr>stdout := stdout st' @ [No_solution_is_found]\<rparr>))"

text \<open>Execution of the notebook halts at the first cell that raises.\<close>

definition notebook :: "error + int list list \<Rightarrow> checker \<Rightarrow> nb_state \<Rightarrow> error option \<times> nb_state" where
  "notebook load chk st =
     (case cell_1 load st of
        (Some e, st') \<Rightarrow> (Some e, st')
      | (None, st') \<Rightarrow> cell_2 chk st')"

subsection \<open>Notions used to state the properties\<close>

text \<open>
  \<open>to_bits L n\<close> is the \<open>L\<close>-digit binary expansion of \<open>n\<close>, most significant digit first,
  and \<open>bits_value\<close> reads a list of digits back as a big-endian binary number.
\<close>

fun to_bits :: "nat \<Rightarrow> nat \<Rightarrow> int list" where
  "to_bits 0 n = []"
| "to_bits (Suc L) n = to_bits L (n div 2) @ [int (n mod 2)]"

definition bits_value :: "int list \<Rightarrow> int" where
  "bits_value v = foldl (\<lambda>a b. 2 * a + b) 0 v"

text \<open>
  A check that answers False on every vector but \<open>[1]\<close>, on which it raises: an example of
  a failing library call, used to exercise the exception path of the cells.
\<close>

definition raising_check :: checker where
  "raising_check v S = (if v = [1] then Inl (External ''TypeError'') else Inr False, v, S)"


section \<open>Candidate vectors\<close>

lemma int_of_digit_simps [simp]:
  "int_of_digit CHR ''0'' = 0" "int_of_digit CHR ''1'' = 1"
  by (simp_all add: int_of_digit_def)

text \<open>
  \<open>binary_repr\<close> produces the characters 0 and 1 only, so \<^verbatim>\<open>int(digit)\<close> never raises in
  \<open>bitfield\<close>.
\<close>

lemma bin_digits_chars: "set (bin_digits n) \<subseteq> {CHR ''0'', CHR ''1''}"
proof (induction n rule: bin_digits.induct)
  case (1 n)
  show ?case
  proof (cases "n = 0")
    case True
    then show ?thesis by (simp add: bin_digits.simps)
  next
    case False
    with 1 show ?thesis by (auto simp add: bin_digits.simps [of n])
  qed
qed

lemma binary_repr_chars: "set (binary_repr num width) \<subseteq> {CHR ''0'', CHR ''1''}"
  using bin_digits_chars [of num]
  by (auto simp add: binary_repr_def zfill_def Let_def)

lemma to_bits_zero: "to_bits k 0 = replicate k 0"
  by (induction k) (simp_all add: replicate_append_same)

lemma length_to_bits [simp]: "length (to_bits L n) = L"
  by (induction L arbitrary: n) simp_all

lemma set_to_bits: "set (to_bits L n) \<subseteq> {0, 1}"
proof (induction L arbitrary: n)
  case 0
  show ?case by simp
next
  case (Suc L)
  have "int (n mod 2) = 0 \<or> int (n mod 2) = 1" by presburger
  with Suc [of "n div 2"] show ?case by auto
qed

lemma bits_value_snoc: "bits_value (v @ [b]) = 2 * bits_value v + b"
  by (simp add: bits_value_def)

lemma bits_value_to_bits: "bits_value (to_bits L n) = int (n mod 2 ^ L)"
proof (induction L arbitrary: n)
  case 0
  show ?case by (simp add: bits_value_def)
next
  case (Suc L)
  have "n mod (2 * 2 ^ L) = 2 * (n div 2 mod 2 ^ L) + n mod 2"
    by (simp add: mod_mult2_eq add.commute)
  with Suc [of "n div 2"] show ?case
    by (simp add: bits_value_snoc)
qed

lemma to_bits_pad: "n < 2 ^ m \<Longrightarrow> to_bits (k + m) n = replicate k 0 @ to_bits m n"
proof (induction m arbitrary: n)
  case 0
  then show ?case by (simp add: to_bits_zero)
next
  case (Suc m)
  from Suc.prems have "n div 2 < 2 ^ m" by auto
  from Suc.IH [OF this] show ?case by simp
qed

lemma length_bin_digits_le: "length (bin_digits n) \<le> L \<longleftrightarrow> n < 2 ^ L"
proof (induction n arbitrary: L rule: bin_digits.induct)
  case (1 n)
  show ?case
  proof (cases "n = 0")
    case True
    then show ?thesis by (simp add: bin_digits.simps)
  next
    case False
    show ?thesis
    proof (cases L)
      case 0
      with False show ?thesis by (simp add: bin_digits.simps [of n])
    next
      case (Suc K)
      have "n div 2 < 2 ^ K \<longleftrightarrow> n < 2 * 2 ^ K" by auto
      with 1 [OF False, of K] False Suc show ?thesis
        by (simp add: bin_digits.simps [of n])
    qed
  qed
qed

lemma map_bin_digits: "map int_of_digit (bin_digits n) = to_bits (length (bin_digits n)) n"
proof (induction n rule: bin_digits.induct)
  case (1 n)
  show ?case
  proof (cases "n = 0")
    case True
    then show ?thesis by (simp add: bin_digits.simps)
  next
    case False
    have "int (n mod 2) = (if odd n then 1 else 0)" by (simp add: odd_iff_mod_2_eq_one)
    with 1 [OF False] False show ?thesis
      by (simp add: bin_digits.simps [of n])
  qed
qed

lemma bitfield_zero_width: "bitfield 0 0 = [0]"
  by (simp add: bitfield_def binary_repr_def)

lemma bitfield_to_bits:
  assumes "0 < L" and "n < 2 ^ L"
  shows "bitfield n L = to_bits L n"
proof (cases "n = 0")
  case True
  with assms show ?thesis
    by (simp add: bitfield_def binary_repr_def to_bits_zero)
next
  case False
  let ?w = "length (bin_digits n)"
  from assms have le: "?w \<le> L" by (simp add: length_bin_digits_le)
  have "n < 2 ^ ?w" using length_bin_digits_le [of n ?w] by simp
  from to_bits_pad [OF this, of "L - ?w"] le
  have "to_bits L n = replicate (L - ?w) 0 @ to_bits ?w n" by simp
  with False le show ?thesis
    by (simp add: bitfield_def binary_repr_def zfill_def max_def map_bin_digits Let_def)
qed

lemma to_bits_ones: "to_bits L (2 ^ L - 1) = replicate L 1"
proof (induction L)
  case 0
  show ?case by simp
next
  case (Suc L)
  have "(2 * 2 ^ L - 1) div 2 = (2 ^ L - 1 :: nat)" by simp
  moreover have "(2 * 2 ^ L - 1) mod 2 = (1 :: nat)"
  proof -
    have "odd (2 * 2 ^ L - 1 :: nat)" by simp
    then show ?thesis by (simp only: odd_iff_mod_2_eq_one)
  qed
  ultimately show ?case using Suc by (simp add: replicate_append_same)
qed

lemma to_bits_of_value:
  "set v \<subseteq> {0, 1} \<Longrightarrow>
     0 \<le> bits_value v \<and> bits_value v < 2 ^ length v \<and> to_bits (length v) (nat (bits_value v)) = v"
proof (induction v rule: rev_induct)
  case Nil
  show ?case by (simp add: bits_value_def)
next
  case (snoc b v)
  then have b: "b = 0 \<or> b = 1" and IH: "0 \<le> bits_value v" "bits_value v < 2 ^ length v"
    "to_bits (length v) (nat (bits_value v)) = v" by auto
  obtain k where k: "bits_value v = int k"
    using IH(1) nonneg_int_cases by blast
  have n: "nat (2 * bits_value v + b) = 2 * k + nat b"
    using b k by auto
  have d: "nat (2 * bits_value v + b) div 2 = nat (bits_value v)"
    using b k by (auto simp add: n)
  have m: "int (nat (2 * bits_value v + b) mod 2) = b"
    using b by (auto simp add: n)
  from b IH d m show ?case
    by (auto simp add: bits_value_snoc)
qed



text \<open>
  Claim C5, as the code has it. For every \<open>i\<close> with \<open>0 \<le> i < 2 ^ L\<close> the candidate vector
  \<open>bitfield i L\<close> has \<open>max L 1\<close> entries, each 0 or 1, and its big-endian binary value is
  \<open>i\<close>. For \<open>L \<ge> 1\<close> these are exactly \<open>L\<close> entries; for \<open>L = 0\<close> the only candidate is
  the one-entry list \<open>[0]\<close>, because \<^verbatim>\<open>np.binary_repr(0, 0)\<close> is \<^verbatim>\<open>'0'\<close>.
\<close>

theorem bitfield_candidate:
  assumes "i < 2 ^ L"
  shows "length (bitfield i L) = max L 1
    \<and> set (bitfield i L) \<subseteq> {0, 1}
    \<and> bits_value (bitfield i L) = int i"
proof (cases "L = 0")
  case True
  with assms have "i = 0" by simp
  with True show ?thesis by (simp add: bitfield_zero_width bits_value_def)
next
  case False
  with assms have "bitfield i L = to_bits L i" by (simp add: bitfield_to_bits)
  with assms False show ?thesis
    by (simp add: set_to_bits bits_value_to_bits)
qed

theorem bitfield_candidate_witness:
  "(6::nat) < 2 ^ 4 \<and> length (bitfield 6 4) = max 4 1
    \<and> set (bitfield 6 4) \<subseteq> {0, 1} \<and> bits_value (bitfield 6 4) = int 6"
  using bitfield_candidate [of 6 4] by simp

text \<open>
  The claim as written asks for exactly \<open>L\<close> entries; at \<open>L = 0\<close> and \<open>i = 0\<close> the
  candidate has one entry.
\<close>

theorem bitfield_width_zero_counterexample:
  "(0::nat) < 2 ^ 0 \<and> length (bitfield 0 0) \<noteq> 0"
  by (simp add: bitfield_def binary_repr_def)

section \<open>The satisfiability check\<close>

lemma set_ground_set: "set (ground_set S) = \<Union> (set ` set S)"
  by (simp add: ground_set_def)

lemma length_filter_included:
  "length (filter P (included v S)) =
     card {j. j < length v \<and> j < length S \<and> v ! j = 1 \<and> P (S ! j)}"
proof -
  have "filter P (included v S) = map snd (filter (\<lambda>z. fst z = 1 \<and> P (snd z)) (zip v S))"
    by (simp add: included_def filter_map comp_def case_prod_beta conj_commute)
  then have "length (filter P (included v S)) =
      card {j. j < length (zip v S) \<and> fst (zip v S ! j) = 1 \<and> P (snd (zip v S ! j))}"
    by (simp add: length_filter_conv_card)
  also have "{j. j < length (zip v S) \<and> fst (zip v S ! j) = 1 \<and> P (snd (zip v S ! j))} =
      {j. j < length v \<and> j < length S \<and> v ! j = 1 \<and> P (S ! j)}"
    by auto
  finally show ?thesis .
qed

lemma check_solution_satisfiability_card:
  "check_solution_satisfiability v S \<longleftrightarrow>
     (\<forall>x \<in> \<Union> (set ` set S).
        card {j. j < length v \<and> j < length S \<and> v ! j = 1 \<and> x \<in> set (S ! j)} = 1)"
  unfolding check_solution_satisfiability_def list_all_iff set_ground_set length_filter_included
  by (rule refl)

text \<open>
  Claim C4. For a vector \<open>v\<close> with one 0/1 entry per subset of \<open>S\<close>, the satisfiability check
  holds if and only if every element of the ground set (the union of all subsets of \<open>S\<close>)
  lies in exactly one included subset, that is, the positions \<open>j\<close> with \<open>v ! j = 1\<close> whose
  subset contains the element number exactly one.
\<close>

theorem check_iff_exactly_one:
  assumes "length v = length S" and "set v \<subseteq> {0, 1}"
  shows "check_solution_satisfiability v S \<longleftrightarrow>
     (\<forall>x \<in> \<Union> (set ` set S). card {j. j < length S \<and> v ! j = 1 \<and> x \<in> set (S ! j)} = 1)"
proof -
  have "\<And>x. {j. j < length v \<and> j < length S \<and> v ! j = 1 \<and> x \<in> set (S ! j)} =
      {j. j < length S \<and> v ! j = 1 \<and> x \<in> set (S ! j)}"
    using assms(1) by auto
  then show ?thesis by (simp add: check_solution_satisfiability_card)
qed

theorem check_iff_exactly_one_witness:
  "length [0, 1, 1, 0 :: int] = length [[2, 3, 4], [1, 2], [3, 4], [1, 2, 3 :: int]]
   \<and> set [0, 1, 1, 0 :: int] \<subseteq> {0, 1}
   \<and> check_solution_satisfiability [0, 1, 1, 0] [[2, 3, 4], [1, 2], [3, 4], [1, 2, 3]]
   \<and> (3 :: int) \<in> \<Union> (set ` set [[2, 3, 4], [1, 2], [3, 4], [1, 2, 3]])
   \<and> card {j. j < length [[2, 3, 4], [1, 2], [3, 4], [1, 2, 3 :: int]]
                 \<and> [0, 1, 1, 0 :: int] ! j = 1
                 \<and> (3 :: int) \<in> set ([[2, 3, 4], [1, 2], [3, 4], [1, 2, 3]] ! j)} = 1"
proof -
  have c: "check_solution_satisfiability [0, 1, 1, 0] [[2, 3, 4], [1, 2], [3, 4], [1, 2, 3]]"
    by code_simp
  have l: "length [0, 1, 1, 0 :: int] = length [[2, 3, 4], [1, 2], [3, 4], [1, 2, 3 :: int]]"
    by simp
  have s: "set [0, 1, 1, 0 :: int] \<subseteq> {0, 1}" by simp
  have x: "(3 :: int) \<in> \<Union> (set ` set [[2, 3, 4], [1, 2], [3, 4], [1, 2, 3]])" by simp
  from c have "\<forall>x \<in> \<Union> (set ` set [[2, 3, 4], [1, 2], [3, 4], [1, 2, 3 :: int]]).
      card {j. j < length [[2, 3, 4], [1, 2], [3, 4], [1, 2, 3 :: int]]
               \<and> [0, 1, 1, 0 :: int] ! j = 1
               \<and> x \<in> set ([[2, 3, 4], [1, 2], [3, 4], [1, 2, 3 :: int]] ! j)} = 1"
    unfolding check_iff_exactly_one [OF l s] .
  then have "card {j. j < length [[2, 3, 4], [1, 2], [3, 4], [1, 2, 3 :: int]]
                 \<and> [0, 1, 1, 0 :: int] ! j = 1
                 \<and> (3 :: int) \<in> set ([[2, 3, 4], [1, 2], [3, 4], [1, 2, 3]] ! j)} = 1"
    using x by (rule bspec)
  with c l s x show ?thesis by (intro conjI)
qed

lemma check_empty [simp]: "check_solution_satisfiability v []"
  by (simp add: check_solution_satisfiability_def ground_set_def)

section \<open>The search loop\<close>

text \<open>Facts about the loop that hold for every check function.\<close>

lemma for_loop_stdout:
  "stdout (snd (snd (for_loop chk L is (lv, st)))) = stdout st"
proof (induction "is" arbitrary: lv st)
  case Nil
  show ?case by simp
next
  case (Cons i "is")
  obtain r c' S' where c: "chk (bitfield i L) (list_of_subsets st) = (r, c', S')"
    by (cases "chk (bitfield i L) (list_of_subsets st)") auto
  show ?case
  proof (cases r)
    case (Inl e)
    with c show ?thesis by simp
  next
    case (Inr b)
    with c Cons.IH [of "lv\<lparr>cur := Some c'\<rparr>"
          "st\<lparr>list_of_subsets := S', check_log := check_log st @ [bitfield i L]\<rparr>"]
    show ?thesis by (cases b) simp_all
  qed
qed

lemma for_loop_subsets:
  assumes "\<And>v S. snd (snd (chk v S)) = S"
  shows "list_of_subsets (snd (snd (for_loop chk L is (lv, st)))) = list_of_subsets st"
proof (induction "is" arbitrary: lv st)
  case Nil
  show ?case by simp
next
  case (Cons i "is")
  obtain r c' S' where c: "chk (bitfield i L) (list_of_subsets st) = (r, c', S')"
    by (cases "chk (bitfield i L) (list_of_subsets st)") auto
  with assms [of "bitfield i L" "list_of_subsets st"] have S': "S' = list_of_subsets st"
    by simp
  show ?case
  proof (cases r)
    case (Inl e)
    with c S' show ?thesis by simp
  next
    case (Inr b)
    with c S' Cons.IH [of "lv\<lparr>cur := Some c'\<rparr>"
          "st\<lparr>list_of_subsets := S', check_log := check_log st @ [bitfield i L]\<rparr>"]
    show ?thesis by (cases b) simp_all
  qed
qed


text \<open>A run of the loop over candidates on which the check answers False and changes nothing.\<close>

lemma for_loop_all_false:
  assumes "\<forall>i \<in> set xs. chk (bitfield i L) (list_of_subsets st) =
      (Inr False, bitfield i L, list_of_subsets st)"
  shows "for_loop chk L (xs @ ys) (lv, st) =
     for_loop chk L ys
       (if xs = [] then lv else lv\<lparr>cur := Some (bitfield (last xs) L)\<rparr>,
        st\<lparr>check_log := check_log st @ map (\<lambda>i. bitfield i L) xs\<rparr>)"
  using assms
proof (induction xs arbitrary: lv st)
  case Nil
  show ?case by simp
next
  case (Cons i xs)
  let ?S = "list_of_subsets st"
  let ?st1 = "st\<lparr>check_log := check_log st @ [bitfield i L]\<rparr>"
  from Cons.prems have c: "chk (bitfield i L) ?S = (Inr False, bitfield i L, ?S)"
    and r: "\<forall>i \<in> set xs. chk (bitfield i L) (list_of_subsets ?st1) =
      (Inr False, bitfield i L, list_of_subsets ?st1)"
    by simp_all
  have "for_loop chk L ((i # xs) @ ys) (lv, st) =
      for_loop chk L (xs @ ys) (lv\<lparr>cur := Some (bitfield i L)\<rparr>, ?st1)"
    using c by (simp add: Let_def)
  also have "\<dots> = for_loop chk L ys
       (if xs = [] then lv\<lparr>cur := Some (bitfield i L)\<rparr>
        else lv\<lparr>cur := Some (bitfield i L)\<rparr>\<lparr>cur := Some (bitfield (last xs) L)\<rparr>,
        ?st1\<lparr>check_log := check_log ?st1 @ map (\<lambda>i. bitfield i L) xs\<rparr>)"
    using r by (rule Cons.IH)
  also have "\<dots> = for_loop chk L ys
       (if i # xs = [] then lv else lv\<lparr>cur := Some (bitfield (last (i # xs)) L)\<rparr>,
        st\<lparr>check_log := check_log st @ map (\<lambda>i. bitfield i L) (i # xs)\<rparr>)"
    by simp
  finally show ?case .
qed

lemma upt_split: "k < n \<Longrightarrow> [0..<n] = [0..<k] @ k # [Suc k..<n]"
  by (metis less_imp_le_nat upt_add_eq_append upt_conv_Cons le_add_diff_inverse plus_nat.add_0 zero_le)

lemma brute_force_found:
  assumes k: "k < 2 ^ length (list_of_subsets st)"
    and before: "\<forall>j < k. chk (bitfield j (length (list_of_subsets st))) (list_of_subsets st) =
      (Inr False, bitfield j (length (list_of_subsets st)), list_of_subsets st)"
    and at: "chk (bitfield k (length (list_of_subsets st))) (list_of_subsets st) = (Inr True, c', S')"
  shows "brute_force chk st =
     (Inr (True, c'),
      st\<lparr>list_of_subsets := S',
         check_log := check_log st @
           map (\<lambda>i. bitfield i (length (list_of_subsets st))) [0..<Suc k]\<rparr>)"
proof -
  let ?L = "length (list_of_subsets st)"
  have "\<forall>i \<in> set [0..<k]. chk (bitfield i ?L) (list_of_subsets st) =
      (Inr False, bitfield i ?L, list_of_subsets st)"
    using before by simp
  from for_loop_all_false [where xs = "[0..<k]" and ys = "k # [Suc k..<2 ^ ?L]"
      and chk = chk and L = ?L and st = st and lv = "\<lparr>has_sol = False, cur = None\<rparr>", OF this] at
  have "for_loop chk ?L [0..<2 ^ ?L] (\<lparr>has_sol = False, cur = None\<rparr>, st) =
     (None, \<lparr>has_sol = True, cur = Some c'\<rparr>,
      st\<lparr>list_of_subsets := S',
         check_log := check_log st @ map (\<lambda>i. bitfield i ?L) [0..<Suc k]\<rparr>)"
    by (simp add: upt_split [OF k, symmetric] Let_def)
  then show ?thesis by (simp add: brute_force_def Let_def)
qed

lemma brute_force_raised:
  assumes k: "k < 2 ^ length (list_of_subsets st)"
    and before: "\<forall>j < k. chk (bitfield j (length (list_of_subsets st))) (list_of_subsets st) =
      (Inr False, bitfield j (length (list_of_subsets st)), list_of_subsets st)"
    and at: "chk (bitfield k (length (list_of_subsets st))) (list_of_subsets st) = (Inl e, c', S')"
  shows "brute_force chk st =
     (Inl e,
      st\<lparr>list_of_subsets := S',
         check_log := check_log st @
           map (\<lambda>i. bitfield i (length (list_of_subsets st))) [0..<Suc k]\<rparr>)"
proof -
  let ?L = "length (list_of_subsets st)"
  have "\<forall>i \<in> set [0..<k]. chk (bitfield i ?L) (list_of_subsets st) =
      (Inr False, bitfield i ?L, list_of_subsets st)"
    using before by simp
  from for_loop_all_false [where xs = "[0..<k]" and ys = "k # [Suc k..<2 ^ ?L]"
      and chk = chk and L = ?L and st = st and lv = "\<lparr>has_sol = False, cur = None\<rparr>", OF this] at
  have "for_loop chk ?L [0..<2 ^ ?L] (\<lparr>has_sol = False, cur = None\<rparr>, st) =
     (Some e, \<lparr>has_sol = False, cur = Some c'\<rparr>,
      st\<lparr>list_of_subsets := S',
         check_log := check_log st @ map (\<lambda>i. bitfield i ?L) [0..<Suc k]\<rparr>)"
    by (simp add: upt_split [OF k, symmetric] Let_def)
  then show ?thesis by (simp add: brute_force_def Let_def)
qed

lemma brute_force_exhausted:
  assumes all: "\<forall>j < 2 ^ length (list_of_subsets st).
      chk (bitfield j (length (list_of_subsets st))) (list_of_subsets st) =
      (Inr False, bitfield j (length (list_of_subsets st)), list_of_subsets st)"
  shows "brute_force chk st =
     (Inr (False, bitfield (2 ^ length (list_of_subsets st) - 1) (length (list_of_subsets st))),
      st\<lparr>check_log := check_log st @
           map (\<lambda>i. bitfield i (length (list_of_subsets st))) [0..<2 ^ length (list_of_subsets st)]\<rparr>)"
proof -
  let ?L = "length (list_of_subsets st)"
  have "\<forall>i \<in> set [0..<2 ^ ?L]. chk (bitfield i ?L) (list_of_subsets st) =
      (Inr False, bitfield i ?L, list_of_subsets st)"
    using all by simp
  from for_loop_all_false [where xs = "[0..<2 ^ ?L]" and ys = "[]"
      and chk = chk and L = ?L and st = st and lv = "\<lparr>has_sol = False, cur = None\<rparr>", OF this]
  have "for_loop chk ?L [0..<2 ^ ?L] (\<lparr>has_sol = False, cur = None\<rparr>, st) =
     (None, \<lparr>has_sol = False, cur = Some (bitfield (2 ^ ?L - 1) ?L)\<rparr>,
      st\<lparr>check_log := check_log st @ map (\<lambda>i. bitfield i ?L) [0..<2 ^ ?L]\<rparr>)"
    by (simp add: last_upt)
  then show ?thesis by (simp add: brute_force_def Let_def)
qed


lemma snd_brute_force:
  "snd (brute_force chk st) =
     snd (snd (for_loop chk (length (list_of_subsets st)) [0..<2 ^ length (list_of_subsets st)]
       (\<lparr>has_sol = False, cur = None\<rparr>, st)))"
  by (simp add: brute_force_def Let_def split: prod.splits option.splits)

lemma brute_force_stdout: "stdout (snd (brute_force chk st)) = stdout st"
  by (simp add: snd_brute_force for_loop_stdout)

lemma brute_force_subsets:
  assumes "\<And>v S. snd (snd (chk v S)) = S"
  shows "list_of_subsets (snd (brute_force chk st)) = list_of_subsets st"
  using assms by (simp add: snd_brute_force for_loop_subsets)






section \<open>The search with the exact-cover check\<close>

lemma exact_cover_check_False:
  "\<not> check_solution_satisfiability v S \<Longrightarrow> exact_cover_check v S = (Inr False, v, S)"
  by (simp add: exact_cover_check_def)

lemma exact_cover_check_True:
  "check_solution_satisfiability v S \<Longrightarrow> exact_cover_check v S = (Inr True, v, S)"
  by (simp add: exact_cover_check_def)

lemma candidates_cover:
  "(\<exists>v. length v = length S \<and> set v \<subseteq> {0, 1} \<and> check_solution_satisfiability v S) \<longleftrightarrow>
   (\<exists>i < 2 ^ length S. check_solution_satisfiability (bitfield i (length S)) S)"
proof (cases "S = []")
  case True
  have "\<exists>v :: int list. length v = 0 \<and> set v \<subseteq> {0, 1}"
    by (rule exI [of _ "[]"]) simp
  moreover have "\<exists>i :: nat. i < 1" by (rule exI [of _ 0]) simp
  ultimately show ?thesis using True by simp
next
  case False
  then have L: "0 < length S" by simp
  show ?thesis
  proof
    assume "\<exists>v. length v = length S \<and> set v \<subseteq> {0, 1} \<and> check_solution_satisfiability v S"
    then obtain v where v: "length v = length S" "set v \<subseteq> {0, 1}"
      "check_solution_satisfiability v S" by blast
    from to_bits_of_value [OF v(2)] v(1)
    have n: "nat (bits_value v) < 2 ^ length S" and "to_bits (length S) (nat (bits_value v)) = v"
      by auto
    with L have "bitfield (nat (bits_value v)) (length S) = v"
      by (simp add: bitfield_to_bits)
    with v(3) have "check_solution_satisfiability (bitfield (nat (bits_value v)) (length S)) S"
      by (simp only:)
    with n show "\<exists>i < 2 ^ length S. check_solution_satisfiability (bitfield i (length S)) S"
      by blast
  next
    assume "\<exists>i < 2 ^ length S. check_solution_satisfiability (bitfield i (length S)) S"
    then obtain i where i: "i < 2 ^ length S"
      "check_solution_satisfiability (bitfield i (length S)) S" by blast
    from L i(1) have "bitfield i (length S) = to_bits (length S) i"
      by (rule bitfield_to_bits)
    then have "length (bitfield i (length S)) = length S \<and> set (bitfield i (length S)) \<subseteq> {0, 1}"
      by (simp add: set_to_bits)
    with i(2) show "\<exists>v. length v = length S \<and> set v \<subseteq> {0, 1} \<and> check_solution_satisfiability v S"
      by blast
  qed
qed

lemma first_candidate:
  assumes "\<exists>i < n. P (i :: nat)"
  shows "\<exists>i < n. P i \<and> (\<forall>j < i. \<not> P j)"
proof -
  from assms obtain i where i: "i < n" "P i" by blast
  define k where "k = (LEAST i. P i)"
  have 1: "P k" unfolding k_def using i(2) by (rule LeastI)
  have 2: "k \<le> i" unfolding k_def using i(2) by (rule Least_le)
  have 3: "\<forall>j < k. \<not> P j" unfolding k_def using not_less_Least by blast
  from 2 i(1) have "k < n" by simp
  with 1 3 show ?thesis by blast
qed

lemma brute_force_exact_cover_found:
  assumes "i < 2 ^ length (list_of_subsets st)"
    and "check_solution_satisfiability (bitfield i (length (list_of_subsets st))) (list_of_subsets st)"
    and "\<forall>j < i. \<not> check_solution_satisfiability (bitfield j (length (list_of_subsets st))) (list_of_subsets st)"
  shows "brute_force exact_cover_check st =
     (Inr (True, bitfield i (length (list_of_subsets st))),
      st\<lparr>check_log := check_log st @
           map (\<lambda>i. bitfield i (length (list_of_subsets st))) [0..<Suc i]\<rparr>)"
proof -
  from assms(3) have "\<forall>j < i.
      exact_cover_check (bitfield j (length (list_of_subsets st))) (list_of_subsets st) =
      (Inr False, bitfield j (length (list_of_subsets st)), list_of_subsets st)"
    by (simp add: exact_cover_check_False)
  from brute_force_found [where chk = exact_cover_check and st = st and k = i,
      OF assms(1) this exact_cover_check_True [OF assms(2)]]
  show ?thesis by simp
qed

lemma brute_force_exact_cover_exhausted:
  assumes "\<forall>j < 2 ^ length (list_of_subsets st).
      \<not> check_solution_satisfiability (bitfield j (length (list_of_subsets st))) (list_of_subsets st)"
  shows "brute_force exact_cover_check st =
     (Inr (False, bitfield (2 ^ length (list_of_subsets st) - 1) (length (list_of_subsets st))),
      st\<lparr>check_log := check_log st @
           map (\<lambda>i. bitfield i (length (list_of_subsets st))) [0..<2 ^ length (list_of_subsets st)]\<rparr>)"
proof -
  from assms have "\<forall>j < 2 ^ length (list_of_subsets st).
      exact_cover_check (bitfield j (length (list_of_subsets st))) (list_of_subsets st) =
      (Inr False, bitfield j (length (list_of_subsets st)), list_of_subsets st)"
    by (simp add: exact_cover_check_False)
  then show ?thesis by (rule brute_force_exhausted)
qed


lemma brute_force_exact_cover_same_input:
  assumes "list_of_subsets st1 = list_of_subsets st2"
  shows "fst (brute_force exact_cover_check st1) = fst (brute_force exact_cover_check st2)"
proof -
  let ?S = "list_of_subsets st2"
  let ?L = "length ?S"
  show ?thesis
  proof (cases "\<exists>i < 2 ^ ?L. check_solution_satisfiability (bitfield i ?L) ?S")
    case True
    then obtain i where i: "i < 2 ^ ?L" "check_solution_satisfiability (bitfield i ?L) ?S"
      "\<forall>j < i. \<not> check_solution_satisfiability (bitfield j ?L) ?S"
      using first_candidate [of "2 ^ ?L" "\<lambda>i. check_solution_satisfiability (bitfield i ?L) ?S"]
      by blast
    from i have "fst (brute_force exact_cover_check st2) = Inr (True, bitfield i ?L)"
      by (simp add: brute_force_exact_cover_found)
    moreover from i assms have "fst (brute_force exact_cover_check st1) = Inr (True, bitfield i ?L)"
      by (simp add: brute_force_exact_cover_found)
    ultimately show ?thesis by simp
  next
    case False
    then have n: "\<forall>j < 2 ^ ?L. \<not> check_solution_satisfiability (bitfield j ?L) ?S" by blast
    then have "fst (brute_force exact_cover_check st2) = Inr (False, bitfield (2 ^ ?L - 1) ?L)"
      by (simp add: brute_force_exact_cover_exhausted)
    moreover from n assms
    have "fst (brute_force exact_cover_check st1) = Inr (False, bitfield (2 ^ ?L - 1) ?L)"
      by (simp add: brute_force_exact_cover_exhausted)
    ultimately show ?thesis by simp
  qed
qed

lemma exact_cover_check_keeps_subsets: "snd (snd (exact_cover_check v S)) = S"
  by (simp add: exact_cover_check_def)

text \<open>
  Claim C1, as the code has it. Let \<open>S\<close> be the list of subsets and \<open>L\<close> its length. If some
  0/1 vector of length \<open>L\<close> satisfies the exact-cover condition, \<^verbatim>\<open>brute_force\<close> returns
  \<open>has_sol = True\<close> with the candidate \<open>bitfield i L\<close> of the smallest \<open>i < 2 ^ L\<close> whose
  candidate satisfies the condition. For a non-empty list that candidate is the \<open>L\<close>-digit
  binary expansion of \<open>i\<close>, a 0/1 vector of length \<open>L\<close>; for the empty list it is the
  one-entry vector \<open>[0]\<close>. If no such vector exists, it returns \<open>has_sol = False\<close> after
  giving every one of the \<open>2 ^ L\<close> candidates, in increasing order of \<open>i\<close>, to the check.
  Running the search again from the state the first run leaves behind returns the same
  result.
\<close>

theorem brute_force_first_solution:
  assumes "list_of_subsets st = S"
  shows "((\<exists>v. length v = length S \<and> set v \<subseteq> {0, 1} \<and> check_solution_satisfiability v S) \<longrightarrow>
      (\<exists>i < 2 ^ length S.
         check_solution_satisfiability (bitfield i (length S)) S
         \<and> (\<forall>j < i. \<not> check_solution_satisfiability (bitfield j (length S)) S)
         \<and> fst (brute_force exact_cover_check st) = Inr (True, bitfield i (length S))
         \<and> (S \<noteq> [] \<longrightarrow>
              bitfield i (length S) = to_bits (length S) i
              \<and> length (bitfield i (length S)) = length S
              \<and> set (bitfield i (length S)) \<subseteq> {0, 1}
              \<and> bits_value (bitfield i (length S)) = int i)
         \<and> (S = [] \<longrightarrow> i = 0 \<and> bitfield i (length S) = [0])))
    \<and> (\<not> (\<exists>v. length v = length S \<and> set v \<subseteq> {0, 1} \<and> check_solution_satisfiability v S) \<longrightarrow>
      (\<exists>c. fst (brute_force exact_cover_check st) = Inr (False, c))
      \<and> check_log (snd (brute_force exact_cover_check st)) =
          check_log st @ map (\<lambda>i. bitfield i (length S)) [0..<2 ^ length S])
    \<and> fst (brute_force exact_cover_check (snd (brute_force exact_cover_check st))) =
        fst (brute_force exact_cover_check st)"
proof (intro conjI impI)
  assume "\<exists>v. length v = length S \<and> set v \<subseteq> {0, 1} \<and> check_solution_satisfiability v S"
  then have "\<exists>i < 2 ^ length S. check_solution_satisfiability (bitfield i (length S)) S"
    by (simp only: candidates_cover)
  then obtain i where i: "i < 2 ^ length S" "check_solution_satisfiability (bitfield i (length S)) S"
      "\<forall>j < i. \<not> check_solution_satisfiability (bitfield j (length S)) S"
    using first_candidate [of "2 ^ length S" "\<lambda>i. check_solution_satisfiability (bitfield i (length S)) S"]
    by blast
  with assms have r: "fst (brute_force exact_cover_check st) = Inr (True, bitfield i (length S))"
    by (simp add: brute_force_exact_cover_found)
  have ne: "S \<noteq> [] \<longrightarrow>
              bitfield i (length S) = to_bits (length S) i
              \<and> length (bitfield i (length S)) = length S
              \<and> set (bitfield i (length S)) \<subseteq> {0, 1}
              \<and> bits_value (bitfield i (length S)) = int i"
  proof
    assume "S \<noteq> []"
    then have "0 < length S" by simp
    from this i(1) have "bitfield i (length S) = to_bits (length S) i"
      by (rule bitfield_to_bits)
    with i(1) show "bitfield i (length S) = to_bits (length S) i
              \<and> length (bitfield i (length S)) = length S
              \<and> set (bitfield i (length S)) \<subseteq> {0, 1}
              \<and> bits_value (bitfield i (length S)) = int i"
      by (simp add: set_to_bits bits_value_to_bits)
  qed
  have em: "S = [] \<longrightarrow> i = 0 \<and> bitfield i (length S) = [0]"
    using i(1) by (auto simp add: bitfield_zero_width)
  from i r ne em show "\<exists>i < 2 ^ length S.
         check_solution_satisfiability (bitfield i (length S)) S
         \<and> (\<forall>j < i. \<not> check_solution_satisfiability (bitfield j (length S)) S)
         \<and> fst (brute_force exact_cover_check st) = Inr (True, bitfield i (length S))
         \<and> (S \<noteq> [] \<longrightarrow>
              bitfield i (length S) = to_bits (length S) i
              \<and> length (bitfield i (length S)) = length S
              \<and> set (bitfield i (length S)) \<subseteq> {0, 1}
              \<and> bits_value (bitfield i (length S)) = int i)
         \<and> (S = [] \<longrightarrow> i = 0 \<and> bitfield i (length S) = [0])"
    by blast
next
  assume "\<not> (\<exists>v. length v = length S \<and> set v \<subseteq> {0, 1} \<and> check_solution_satisfiability v S)"
  then have n: "\<forall>j < 2 ^ length S. \<not> check_solution_satisfiability (bitfield j (length S)) S"
    by (simp only: candidates_cover) blast
  with assms have r: "brute_force exact_cover_check st =
     (Inr (False, bitfield (2 ^ length S - 1) (length S)),
      st\<lparr>check_log := check_log st @ map (\<lambda>i. bitfield i (length S)) [0..<2 ^ length S]\<rparr>)"
    using brute_force_exact_cover_exhausted [of st] by simp
  from r show "\<exists>c. fst (brute_force exact_cover_check st) = Inr (False, c)" by simp
  from r show "check_log (snd (brute_force exact_cover_check st)) =
          check_log st @ map (\<lambda>i. bitfield i (length S)) [0..<2 ^ length S]" by simp
next
  have "list_of_subsets (snd (brute_force exact_cover_check st)) = list_of_subsets st"
    by (rule brute_force_subsets) (rule exact_cover_check_keeps_subsets)
  then show "fst (brute_force exact_cover_check (snd (brute_force exact_cover_check st))) =
        fst (brute_force exact_cover_check st)"
    by (rule brute_force_exact_cover_same_input)
qed

lemma ball_upt: "(\<forall>j \<in> set [0..<n]. P j) \<longleftrightarrow> (\<forall>j < n. P j)"
  by auto

lemma sample_candidates_before:
  "\<forall>j < 6. \<not> check_solution_satisfiability
      (bitfield j (length [[2, 3, 4], [1, 2], [3, 4], [1, 2, 3 :: int]]))
      [[2, 3, 4], [1, 2], [3, 4], [1, 2, 3]]"
proof -
  have "\<forall>j \<in> set [0..<6]. \<not> check_solution_satisfiability
      (bitfield j (length [[2, 3, 4], [1, 2], [3, 4], [1, 2, 3 :: int]]))
      [[2, 3, 4], [1, 2], [3, 4], [1, 2, 3]]"
    by code_simp
  then show ?thesis by (simp only: ball_upt)
qed

lemma sample_candidate_6:
  "bitfield 6 (length [[2, 3, 4], [1, 2], [3, 4], [1, 2, 3 :: int]]) = [0, 1, 1, 0]"
  "check_solution_satisfiability [0, 1, 1, 0] [[2, 3, 4], [1, 2], [3, 4], [1, 2, 3]]"
  by code_simp+

lemma overlapping_pair_unsatisfiable:
  "\<not> (\<exists>v. length v = length [[1, 2], [2, 3 :: int]] \<and> set v \<subseteq> {0, 1}
        \<and> check_solution_satisfiability v [[1, 2], [2, 3]])"
proof -
  have "\<forall>j \<in> set [0..<2 ^ length [[1, 2], [2, 3 :: int]]].
      \<not> check_solution_satisfiability (bitfield j (length [[1, 2], [2, 3 :: int]])) [[1, 2], [2, 3]]"
    by code_simp
  then have "\<not> (\<exists>i < 2 ^ length [[1, 2], [2, 3 :: int]].
      check_solution_satisfiability (bitfield i (length [[1, 2], [2, 3 :: int]])) [[1, 2], [2, 3]])"
    by (simp only: ball_upt) blast
  then show ?thesis unfolding candidates_cover .
qed

theorem brute_force_first_solution_witness:
  "list_of_subsets \<lparr>list_of_subsets = [[2, 3, 4], [1, 2], [3, 4], [1, 2, 3]], stdout = [], check_log = []\<rparr>
      = [[2, 3, 4], [1, 2], [3, 4], [1, 2, 3]]
   \<and> (\<exists>v. length v = length [[2, 3, 4], [1, 2], [3, 4], [1, 2, 3 :: int]] \<and> set v \<subseteq> {0, 1}
        \<and> check_solution_satisfiability v [[2, 3, 4], [1, 2], [3, 4], [1, 2, 3]])
   \<and> fst (brute_force exact_cover_check
        \<lparr>list_of_subsets = [[2, 3, 4], [1, 2], [3, 4], [1, 2, 3]], stdout = [], check_log = []\<rparr>)
      = Inr (True, [0, 1, 1, 0])
   \<and> \<not> (\<exists>v. length v = length [[1, 2], [2, 3 :: int]] \<and> set v \<subseteq> {0, 1}
        \<and> check_solution_satisfiability v [[1, 2], [2, 3]])
   \<and> (\<exists>c. fst (brute_force exact_cover_check
        \<lparr>list_of_subsets = [[1, 2], [2, 3]], stdout = [], check_log = []\<rparr>) = Inr (False, c))
   \<and> length (check_log (snd (brute_force exact_cover_check
        \<lparr>list_of_subsets = [[1, 2], [2, 3]], stdout = [], check_log = []\<rparr>))) = 4"
proof -
  let ?S = "[[2, 3, 4], [1, 2], [3, 4], [1, 2, 3 :: int]]"
  let ?st = "\<lparr>list_of_subsets = ?S, stdout = [], check_log = []\<rparr>"
  let ?T = "[[1, 2], [2, 3 :: int]]"
  let ?su = "\<lparr>list_of_subsets = ?T, stdout = [], check_log = []\<rparr>"
  have ex: "\<exists>v. length v = length ?S \<and> set v \<subseteq> {0, 1} \<and> check_solution_satisfiability v ?S"
    by (rule exI [of _ "[0, 1, 1, 0]"]) (simp add: sample_candidate_6)
  have S: "list_of_subsets ?st = ?S" by simp
  from brute_force_first_solution [OF S] ex
  obtain i where i: "i < 2 ^ length ?S" "check_solution_satisfiability (bitfield i (length ?S)) ?S"
    "\<forall>j < i. \<not> check_solution_satisfiability (bitfield j (length ?S)) ?S"
    "fst (brute_force exact_cover_check ?st) = Inr (True, bitfield i (length ?S))"
    by blast
  have "\<not> i < 6" using i(2) sample_candidates_before by blast
  moreover have "\<not> 6 < i" using i(3) sample_candidate_6 by (metis (full_types))
  ultimately have "i = 6" by simp
  with i(4) have r: "fst (brute_force exact_cover_check ?st) = Inr (True, [0, 1, 1, 0])"
    by (simp only: sample_candidate_6)
  have T: "list_of_subsets ?su = ?T" by simp
  from brute_force_first_solution [OF T] overlapping_pair_unsatisfiable
  have "(\<exists>c. fst (brute_force exact_cover_check ?su) = Inr (False, c))
      \<and> check_log (snd (brute_force exact_cover_check ?su)) =
          check_log ?su @ map (\<lambda>i. bitfield i (length ?T)) [0..<2 ^ length ?T]"
    by blast
  then have "(\<exists>c. fst (brute_force exact_cover_check ?su) = Inr (False, c))
      \<and> length (check_log (snd (brute_force exact_cover_check ?su))) = 4"
    by simp
  with S ex r overlapping_pair_unsatisfiable show ?thesis by blast
qed

text \<open>
  The claim as written returns an assignment in \<open>{0,1}\<^sup>L\<close>, the \<open>L\<close>-digit expansion of \<open>i\<close>.
  For the empty list the empty assignment satisfies the condition, and the search returns
  the vector \<open>[0]\<close>, which has one entry and is not the 0-digit expansion of 0.
\<close>

theorem brute_force_first_solution_counterexample:
  "length ([] :: int list) = length ([] :: int list list)
   \<and> set ([] :: int list) \<subseteq> {0, 1}
   \<and> check_solution_satisfiability [] []
   \<and> fst (brute_force exact_cover_check \<lparr>list_of_subsets = [], stdout = [], check_log = []\<rparr>)
        = Inr (True, [0])
   \<and> length [0 :: int] \<noteq> length ([] :: int list list)
   \<and> [0] \<noteq> to_bits (length ([] :: int list list)) 0"
  by (simp add: brute_force_def bitfield_zero_width exact_cover_check_def Let_def)

text \<open>
  Claim C2. For the subsets \<open>[[2,3,4],[1,2],[3,4],[1,2,3]]\<close> the search returns
  \<open>has_sol = True\<close> and the vector \<open>[0,1,1,0]\<close>, and this vector satisfies the exact-cover
  condition for these subsets.
\<close>

theorem brute_force_sample:
  "fst (brute_force exact_cover_check (st\<lparr>list_of_subsets := [[2, 3, 4], [1, 2], [3, 4], [1, 2, 3]]\<rparr>))
     = Inr (True, [0, 1, 1, 0])
   \<and> check_solution_satisfiability [0, 1, 1, 0] [[2, 3, 4], [1, 2], [3, 4], [1, 2, 3]]"
proof -
  let ?st = "st\<lparr>list_of_subsets := [[2, 3, 4], [1, 2], [3, 4], [1, 2, 3]]\<rparr>"
  have "brute_force exact_cover_check ?st =
     (Inr (True, bitfield 6 (length (list_of_subsets ?st))),
      ?st\<lparr>check_log := check_log ?st @
           map (\<lambda>i. bitfield i (length (list_of_subsets ?st))) [0..<Suc 6]\<rparr>)"
    using sample_candidate_6 sample_candidates_before
    by (intro brute_force_exact_cover_found) simp_all
  then show ?thesis using sample_candidate_6 by simp
qed

text \<open>
  Claim C3, as the code has it. For the empty list of subsets \<open>L = 0\<close> and \<open>max = 1\<close>: the
  loop body runs once, on the candidate \<open>bitfield 0 0 = [0]\<close>, and \<^verbatim>\<open>brute_force\<close>
  returns the answer of that single evaluation of the check as \<open>has_sol\<close>. The empty
  ground set has no element to cover, so the exact-cover condition holds and the search
  returns \<open>has_sol = True\<close> with \<open>cur = [0]\<close>.
\<close>

theorem brute_force_empty:
  "(chk [0] [] = (Inr b, c', S') \<longrightarrow>
      brute_force chk (st\<lparr>list_of_subsets := []\<rparr>) =
        (Inr (b, c'), st\<lparr>list_of_subsets := S', check_log := check_log st @ [[0]]\<rparr>))
   \<and> brute_force exact_cover_check (st\<lparr>list_of_subsets := []\<rparr>) =
        (Inr (True, [0]), st\<lparr>list_of_subsets := [], check_log := check_log st @ [[0]]\<rparr>)"
proof -
  have g: "brute_force chk (st\<lparr>list_of_subsets := []\<rparr>) =
        (Inr (b, c'), st\<lparr>list_of_subsets := S', check_log := check_log st @ [[0]]\<rparr>)"
    if "chk [0] [] = (Inr b, c', S')" for chk b c' S'
    using that by (cases b) (simp_all add: brute_force_def bitfield_zero_width Let_def)
  have "exact_cover_check [0] [] = (Inr True, [0], [])"
    by (simp add: exact_cover_check_def)
  from g [of exact_cover_check True "[0]" "[]", OF this] g [of chk b c' S']
  show ?thesis by blast
qed

theorem brute_force_empty_witness:
  "exact_cover_check [0] [] = (Inr True, [0], [])
   \<and> brute_force exact_cover_check \<lparr>list_of_subsets = [], stdout = [], check_log = []\<rparr> =
        (Inr (True, [0]), \<lparr>list_of_subsets = [], stdout = [], check_log = [[0]]\<rparr>)"
proof -
  have c: "exact_cover_check [0] [] = (Inr True, [0], [])"
    by (simp add: exact_cover_check_def)
  from brute_force_empty [of exact_cover_check True "[0]" "[]"
      "\<lparr>list_of_subsets = [], stdout = [], check_log = []\<rparr>"] c
  show ?thesis by simp
qed

text \<open>
  The claim as written expects \<open>has_sol = False\<close> for the empty list; the search returns
  \<open>has_sol = True\<close>.
\<close>

theorem brute_force_empty_counterexample:
  "fst (brute_force exact_cover_check \<lparr>list_of_subsets = [], stdout = [], check_log = []\<rparr>)
     = Inr (True, [0])"
  by (simp add: brute_force_def bitfield_zero_width exact_cover_check_def Let_def)



text \<open>
  Claim C9. For a non-empty list of subsets on which no 0/1 vector of length \<open>L\<close> satisfies
  the exact-cover condition, \<^verbatim>\<open>brute_force\<close> returns \<open>has_sol = False\<close> together with the
  all-ones vector of length \<open>L\<close>, the candidate of \<open>2 ^ L - 1\<close>, which is the last one
  enumerated. That vector is not empty and does not satisfy the condition.
\<close>

theorem brute_force_failure_vector:
  assumes "list_of_subsets st = S" and "S \<noteq> []"
    and "\<not> (\<exists>v. length v = length S \<and> set v \<subseteq> {0, 1} \<and> check_solution_satisfiability v S)"
  shows "fst (brute_force exact_cover_check st) = Inr (False, replicate (length S) 1)
    \<and> replicate (length S) 1 = bitfield (2 ^ length S - 1) (length S)
    \<and> replicate (length S) (1 :: int) \<noteq> []
    \<and> \<not> check_solution_satisfiability (replicate (length S) 1) S"
proof -
  from assms(2) have L: "0 < length S" by simp
  have "(2 :: nat) ^ length S - 1 < 2 ^ length S" by simp
  with L have "bitfield (2 ^ length S - 1) (length S) = to_bits (length S) (2 ^ length S - 1)"
    by (rule bitfield_to_bits)
  then have ones: "bitfield (2 ^ length S - 1) (length S) = replicate (length S) 1"
    by (simp only: to_bits_ones)
  from assms(3) have "\<forall>j < 2 ^ length S. \<not> check_solution_satisfiability (bitfield j (length S)) S"
    unfolding candidates_cover by blast
  with assms(1) have "fst (brute_force exact_cover_check st) =
      Inr (False, bitfield (2 ^ length S - 1) (length S))"
    using brute_force_exact_cover_exhausted [of st] by simp
  moreover have "length (replicate (length S) (1 :: int)) = length S
      \<and> set (replicate (length S) (1 :: int)) \<subseteq> {0, 1}"
    by auto
  with assms(3) have "\<not> check_solution_satisfiability (replicate (length S) 1) S" by blast
  ultimately show ?thesis using ones L by simp
qed

theorem brute_force_failure_vector_witness:
  "list_of_subsets \<lparr>list_of_subsets = [[1, 2], [2, 3]], stdout = [], check_log = []\<rparr> = [[1, 2], [2, 3]]
   \<and> [[1, 2], [2, 3 :: int]] \<noteq> []
   \<and> \<not> (\<exists>v. length v = length [[1, 2], [2, 3 :: int]] \<and> set v \<subseteq> {0, 1}
        \<and> check_solution_satisfiability v [[1, 2], [2, 3]])
   \<and> fst (brute_force exact_cover_check \<lparr>list_of_subsets = [[1, 2], [2, 3]], stdout = [], check_log = []\<rparr>)
        = Inr (False, [1, 1])"
proof -
  let ?T = "[[1, 2], [2, 3 :: int]]"
  let ?su = "\<lparr>list_of_subsets = ?T, stdout = [], check_log = []\<rparr>"
  have T: "list_of_subsets ?su = ?T" and ne: "?T \<noteq> []" by simp_all
  from brute_force_failure_vector [OF T ne overlapping_pair_unsatisfiable]
  have "fst (brute_force exact_cover_check ?su) = Inr (False, replicate (length ?T) 1)"
    by blast
  moreover have "replicate (length ?T) (1 :: int) = [1, 1]" by simp
  ultimately show ?thesis using T ne overlapping_pair_unsatisfiable by simp
qed

text \<open>
  Claim C10. \<^verbatim>\<open>brute_force\<close> itself never assigns to \<^verbatim>\<open>list_of_subsets\<close>: if the check it
  calls leaves the list of subsets as it found it, the list (and so each member subset)
  after the call equals the list before the call. The exact-cover check is such a check.
\<close>

theorem brute_force_keeps_subsets:
  "((\<forall>v S. snd (snd (chk v S)) = S) \<longrightarrow>
      list_of_subsets (snd (brute_force chk st)) = list_of_subsets st)
   \<and> list_of_subsets (snd (brute_force exact_cover_check st)) = list_of_subsets st"
proof (intro conjI impI)
  assume "\<forall>v S. snd (snd (chk v S)) = S"
  then have "\<And>v S. snd (snd (chk v S)) = S" by blast
  then show "list_of_subsets (snd (brute_force chk st)) = list_of_subsets st"
    by (rule brute_force_subsets)
next
  show "list_of_subsets (snd (brute_force exact_cover_check st)) = list_of_subsets st"
    by (rule brute_force_subsets) (rule exact_cover_check_keeps_subsets)
qed

theorem brute_force_keeps_subsets_witness:
  "(\<forall>v S. snd (snd (exact_cover_check v S)) = S)
   \<and> list_of_subsets (snd (brute_force exact_cover_check
        \<lparr>list_of_subsets = [[2, 3, 4], [1, 2], [3, 4], [1, 2, 3]], stdout = [], check_log = []\<rparr>))
      = [[2, 3, 4], [1, 2], [3, 4], [1, 2, 3]]"
proof -
  have p: "\<forall>v S. snd (snd (exact_cover_check v S)) = S"
    by (simp add: exact_cover_check_def)
  from brute_force_keeps_subsets [of exact_cover_check
      "\<lparr>list_of_subsets = [[2, 3, 4], [1, 2], [3, 4], [1, 2, 3]], stdout = [], check_log = []\<rparr>"] p
  show ?thesis by simp
qed

section \<open>The notebook cells\<close>

lemma cell_2_raised:
  "fst (brute_force chk st) = Inl e \<Longrightarrow> cell_2 chk st = (Some e, snd (brute_force chk st))"
  by (cases "brute_force chk st") (simp add: cell_2_def)

lemma cell_2_stdout:
  "(case fst (cell_2 chk st) of
      Some e \<Rightarrow> stdout (snd (cell_2 chk st)) = stdout st
    | None \<Rightarrow>
        (\<exists>c. stdout (snd (cell_2 chk st)) = stdout st @ [Solution_is c])
        \<or> stdout (snd (cell_2 chk st)) = stdout st @ [No_solution_is_found])"
proof -
  obtain r st' where b: "brute_force chk st = (r, st')" by (cases "brute_force chk st") auto
  with brute_force_stdout [of chk st] have s: "stdout st' = stdout st" by simp
  show ?thesis
  proof (cases r)
    case (Inl e)
    with b s show ?thesis by (simp add: cell_2_def)
  next
    case (Inr p)
    obtain h c where "p = (h, c)" by (cases p) auto
    with Inr b s show ?thesis by (cases h) (simp_all add: cell_2_def)
  qed
qed

text \<open>
  Claim C8. The cells handle no exception. If opening or parsing the input file fails, the
  notebook halts with that exception, prints nothing and changes nothing. An exception that
  leaves \<^verbatim>\<open>brute_force\<close> leaves cell 2 unchanged, with nothing printed. If the list is
  loaded and the check raises on the first candidate it does not answer with False, the
  notebook halts with that same exception having printed the list only. In every run the
  notebook either halts with an exception and has printed no result line, or finishes and
  has printed the list followed by exactly one result line.
\<close>

theorem notebook_no_recovery:
  "(load = Inl e \<longrightarrow> notebook load chk st = (Some e, st))
   \<and> (fst (brute_force chk st) = Inl e \<longrightarrow> cell_2 chk st = (Some e, snd (brute_force chk st)))
   \<and> (load = Inr S \<and> k < 2 ^ length S
        \<and> (\<forall>j < k. chk (bitfield j (length S)) S = (Inr False, bitfield j (length S), S))
        \<and> fst (chk (bitfield k (length S)) S) = Inl e \<longrightarrow>
      fst (notebook load chk st) = Some e
      \<and> stdout (snd (notebook load chk st)) = stdout st @ [Subsets S])
   \<and> (case fst (notebook load chk st) of
        Some e' \<Rightarrow>
          stdout (snd (notebook load chk st)) = stdout st
          \<or> (\<exists>S. stdout (snd (notebook load chk st)) = stdout st @ [Subsets S])
      | None \<Rightarrow>
          (\<exists>S c. stdout (snd (notebook load chk st)) = stdout st @ [Subsets S, Solution_is c])
          \<or> (\<exists>S. stdout (snd (notebook load chk st)) = stdout st @ [Subsets S, No_solution_is_found]))"
proof (intro conjI impI)
  assume "load = Inl e"
  then show "notebook load chk st = (Some e, st)"
    by (simp add: notebook_def cell_1_def)
next
  assume "fst (brute_force chk st) = Inl e"
  then show "cell_2 chk st = (Some e, snd (brute_force chk st))"
    by (rule cell_2_raised)
next
  assume a: "load = Inr S \<and> k < 2 ^ length S
        \<and> (\<forall>j < k. chk (bitfield j (length S)) S = (Inr False, bitfield j (length S), S))
        \<and> fst (chk (bitfield k (length S)) S) = Inl e"
  let ?st1 = "st\<lparr>list_of_subsets := S, stdout := stdout st @ [Subsets S]\<rparr>"
  from a have n: "notebook load chk st = cell_2 chk ?st1"
    by (simp add: notebook_def cell_1_def)
  obtain c' S' where at: "chk (bitfield k (length S)) S = (Inl e, c', S')"
    using a by (cases "chk (bitfield k (length S)) S") auto
  have "brute_force chk ?st1 =
     (Inl e, ?st1\<lparr>list_of_subsets := S',
         check_log := check_log ?st1 @
           map (\<lambda>i. bitfield i (length (list_of_subsets ?st1))) [0..<Suc k]\<rparr>)"
    using a at by (intro brute_force_raised) simp_all
  then have "cell_2 chk ?st1 =
     (Some e, ?st1\<lparr>list_of_subsets := S',
         check_log := check_log ?st1 @
           map (\<lambda>i. bitfield i (length (list_of_subsets ?st1))) [0..<Suc k]\<rparr>)"
    by (simp add: cell_2_def)
  with n show "fst (notebook load chk st) = Some e"
    and "stdout (snd (notebook load chk st)) = stdout st @ [Subsets S]"
    by simp_all
next
  show "case fst (notebook load chk st) of
        Some e' \<Rightarrow>
          stdout (snd (notebook load chk st)) = stdout st
          \<or> (\<exists>S. stdout (snd (notebook load chk st)) = stdout st @ [Subsets S])
      | None \<Rightarrow>
          (\<exists>S c. stdout (snd (notebook load chk st)) = stdout st @ [Subsets S, Solution_is c])
          \<or> (\<exists>S. stdout (snd (notebook load chk st)) = stdout st @ [Subsets S, No_solution_is_found])"
  proof (cases load)
    case (Inl e')
    then show ?thesis by (simp add: notebook_def cell_1_def)
  next
    case (Inr T)
    let ?st1 = "st\<lparr>list_of_subsets := T, stdout := stdout st @ [Subsets T]\<rparr>"
    from Inr have n: "notebook load chk st = cell_2 chk ?st1"
      by (simp add: notebook_def cell_1_def)
    show ?thesis
    proof (cases "fst (cell_2 chk ?st1)")
      case None
      with cell_2_stdout [of chk ?st1]
      have "(\<exists>c. stdout (snd (cell_2 chk ?st1)) = stdout st @ [Subsets T, Solution_is c])
        \<or> stdout (snd (cell_2 chk ?st1)) = stdout st @ [Subsets T, No_solution_is_found]"
        by simp
      with n None show ?thesis by auto
    next
      case (Some e')
      with cell_2_stdout [of chk ?st1]
      have "stdout (snd (cell_2 chk ?st1)) = stdout st @ [Subsets T]" by simp
      with n Some show ?thesis by auto
    qed
  qed
qed

theorem notebook_no_recovery_witness:
  "notebook (Inl (External ''FileNotFoundError'')) exact_cover_check
      \<lparr>list_of_subsets = [], stdout = [], check_log = []\<rparr>
     = (Some (External ''FileNotFoundError''), \<lparr>list_of_subsets = [], stdout = [], check_log = []\<rparr>)
   \<and> fst (raising_check (bitfield 1 (length [[1 :: int]])) [[1]]) = Inl (External ''TypeError'')
   \<and> fst (notebook (Inr [[1]]) raising_check \<lparr>list_of_subsets = [], stdout = [], check_log = []\<rparr>)
     = Some (External ''TypeError'')
   \<and> stdout (snd (notebook (Inr [[1]]) raising_check
        \<lparr>list_of_subsets = [], stdout = [], check_log = []\<rparr>)) = [Subsets [[1]]]"
proof -
  let ?st = "\<lparr>list_of_subsets = [], stdout = [], check_log = []\<rparr>"
  have b: "bitfield 0 (length [[1 :: int]]) = [0]" "bitfield 1 (length [[1 :: int]]) = [1]"
    by code_simp+
  have k: "(1 :: nat) < 2 ^ length [[1 :: int]]" by simp
  have before: "\<forall>j < 1. raising_check (bitfield j (length [[1 :: int]])) [[1]] =
      (Inr False, bitfield j (length [[1 :: int]]), [[1]])"
    using b by (simp add: raising_check_def)
  have at: "fst (raising_check (bitfield 1 (length [[1 :: int]])) [[1]]) = Inl (External ''TypeError'')"
    using b by (simp add: raising_check_def)
  from notebook_no_recovery [of "Inl (External ''FileNotFoundError'')" "External ''FileNotFoundError''"
      exact_cover_check ?st]
  have 1: "notebook (Inl (External ''FileNotFoundError'')) exact_cover_check ?st =
      (Some (External ''FileNotFoundError''), ?st)"
    by simp
  from notebook_no_recovery [of "Inr [[1]]" "External ''TypeError''" raising_check ?st "[[1]]" 1]
    k before at
  have 2: "fst (notebook (Inr [[1]]) raising_check ?st) = Some (External ''TypeError'')
      \<and> stdout (snd (notebook (Inr [[1]]) raising_check ?st)) = stdout ?st @ [Subsets [[1]]]"
    by blast
  from 1 2 at show ?thesis by simp
qed

end
